theory Spec2Isabelle
  imports Complex_Main "HOL-Library.Sublist"
begin

section \<open>The playback engine of main.py (class MusicPlayer)\<close>

text \<open>
  The class \<^verbatim>\<open>MusicPlayer\<close> keeps a playlist, the index of the selected track, a
  playing flag, a volume and two fields from which the elapsed time is derived. Its
  methods mutate these fields, call the audio device (\<^verbatim>\<open>pygame.mixer.music\<close>), read the
  file system and the wall clock, and emit Qt signals.

  The embedding passes the object explicitly: every method takes the player and returns
  the updated player. What a method reads from outside the object during one call is
  gathered in a record \<open>env\<close>: which paths are files, the duration lookup, the value
  of \<^verbatim>\<open>time.time()\<close>, and for every device call whose outcome the code looks at, that
  outcome (a value, or that the call raised). Within one call of a method the clock is
  read as one value. Signals are appended to a trace kept with the player; the slots
  connected to them are outside the model. Python floats are read as real numbers.
\<close>

subsection \<open>Data\<close>

datatype event =
    StateChanged
  | TrackChanged string
  | PositionUpdated real real

text \<open>
  \<^verbatim>\<open>pygame.mixer.music.play(loops=0, start=...)\<close> returns, raises \<^verbatim>\<open>TypeError\<close>
  (handled by a second, plain \<^verbatim>\<open>play()\<close>), or raises something else.
\<close>

datatype play_result = PlayOk | PlayTypeError | PlayError

record env =
  is_file :: "string \<Rightarrow> bool"
  get_duration :: "string \<Rightarrow> real"
  time_time :: real
  music_get_pos :: "int option"      \<comment> \<open>milliseconds; \<open>None\<close>: the call raised\<close>
  music_get_busy :: "bool option"    \<comment> \<open>\<open>None\<close>: the call raised\<close>
  music_load :: bool                 \<comment> \<open>\<open>True\<close>: the call returned\<close>
  music_play :: play_result
  music_play_plain :: bool           \<comment> \<open>the fallback \<^verbatim>\<open>play()\<close> returned\<close>
  music_unpause :: bool              \<comment> \<open>\<open>True\<close>: the call returned\<close>

text \<open>
  The calls \<^verbatim>\<open>pause\<close>, \<^verbatim>\<open>stop\<close>, \<^verbatim>\<open>set_volume\<close> and \<^verbatim>\<open>set_pos\<close> are each wrapped in
  \<^verbatim>\<open>try: ... except Exception: pass\<close> and return nothing that is used, so their outcome
  cannot influence the player and has no field here.
\<close>

record player =
  playlist :: "string list"
  current_index :: int
  playing :: bool
  volume :: real
  track_start_time :: "real option"   \<comment> \<open>\<^verbatim>\<open>_track_start_time\<close>, \<open>None\<close> as in Python\<close>
  track_offset_seconds :: real        \<comment> \<open>\<^verbatim>\<open>_track_offset_seconds\<close>\<close>
  emitted :: "event list"             \<comment> \<open>the signals emitted so far, oldest first\<close>

datatype error = IndexError | DeviceError

text \<open>
  A method that can let an exception escape returns an \<open>outcome\<close>; a raise carries the
  player as it is at that moment, since Python keeps the mutations made before it.
\<close>

datatype outcome = Returned player | Raised error player

fun state_of :: "outcome \<Rightarrow> player" where
  "state_of (Returned s) = s"
| "state_of (Raised err s) = s"

definition emit :: "event \<Rightarrow> player \<Rightarrow> player" where
  "emit ev s = s\<lparr>emitted := emitted s @ [ev]\<rparr>"

text \<open>Python's \<^verbatim>\<open>xs[i]\<close>: a negative index counts from the end, \<open>None\<close> is IndexError.\<close>

definition py_getitem :: "'a list \<Rightarrow> int \<Rightarrow> 'a option" where
  "py_getitem xs i =
     (if 0 \<le> i \<and> i < int (length xs) then Some (xs ! nat i)
      else if - int (length xs) \<le> i \<and> i < 0 then Some (xs ! nat (int (length xs) + i))
      else None)"

text \<open>Python's \<^verbatim>\<open>xs.index(x)\<close>: the first position of \<open>x\<close>, \<open>None\<close> is ValueError.\<close>

fun list_index :: "'a list \<Rightarrow> 'a \<Rightarrow> nat option" where
  "list_index [] x = None"
| "list_index (y # ys) x = (if y = x then Some 0 else map_option Suc (list_index ys x))"

subsection \<open>The methods\<close>

text \<open>
  \<^verbatim>\<open>_play_internal\<close>, and the same block inside \<^verbatim>\<open>seek\<close>: load, then play with a start
  position, falling back to a plain play on TypeError. Any other exception leaves the
  \<^verbatim>\<open>try\<close> before the fields are assigned.
\<close>

definition device_starts :: "env \<Rightarrow> bool" where
  "device_starts e =
     (music_load e \<and>
      (case music_play e of
         PlayOk \<Rightarrow> True
       | PlayTypeError \<Rightarrow> music_play_plain e
       | PlayError \<Rightarrow> False))"

definition play_internal :: "env \<Rightarrow> string \<Rightarrow> real \<Rightarrow> player \<Rightarrow> player" where
  "play_internal e path start_time s =
     (if device_starts e then
        emit StateChanged (emit (TrackChanged path)
          (s\<lparr>track_offset_seconds := start_time,
              track_start_time := Some (time_time e),
              playing := True\<rparr>))
      else s)"

definition load_playlist :: "env \<Rightarrow> string list \<Rightarrow> player \<Rightarrow> player" where
  "load_playlist e paths s =
     (let pl = filter (is_file e) paths
      in s\<lparr>playlist := pl, current_index := (if pl \<noteq> [] then 0 else - 1)\<rparr>)"

definition current_track :: "player \<Rightarrow> string option" where
  "current_track s =
     (if current_index s = - 1 then None
      else if 0 \<le> current_index s \<and> current_index s < int (length (playlist s))
      then Some (playlist s ! nat (current_index s))
      else None)"

definition play_index :: "env \<Rightarrow> int \<Rightarrow> player \<Rightarrow> player" where
  "play_index e idx s =
     (if playlist s = [] then s
      else if idx < 0 \<or> idx \<ge> int (length (playlist s)) then s
      else let path = playlist s ! nat idx
           in if \<not> is_file e path then s
              else play_internal e path 0 (s\<lparr>current_index := idx\<rparr>))"

text \<open>
  \<^verbatim>\<open>path in self.playlist\<close> holds exactly when \<^verbatim>\<open>self.playlist.index(path)\<close> does not
  raise, so the membership test and the index are one case distinction.
\<close>

definition play_path :: "env \<Rightarrow> string \<Rightarrow> player \<Rightarrow> player" where
  "play_path e path s =
     (if \<not> is_file e path then s
      else case list_index (playlist s) path of
             Some i \<Rightarrow> play_index e (int i) s
           | None \<Rightarrow> play_internal e path 0 (s\<lparr>current_index := - 1\<rparr>))"

text \<open>
  What the pause branch of \<^verbatim>\<open>toggle\<close> adds to the offset. With a negative position and
  no start time, \<^verbatim>\<open>time.time() - None\<close> raises TypeError inside the \<^verbatim>\<open>try\<close>, so the
  \<^verbatim>\<open>except\<close> branch computes the increment; there \<^verbatim>\<open>start or time.time()\<close> replaces a
  start time that is unset or equal to \<open>0.0\<close>.
\<close>

definition pause_elapsed :: "env \<Rightarrow> player \<Rightarrow> real" where
  "pause_elapsed e s =
     (let fallback =
        time_time e - (case track_start_time s of
                         Some st \<Rightarrow> if st = 0 then time_time e else st
                       | None \<Rightarrow> time_time e)
      in case music_get_pos e of
           Some ms \<Rightarrow>
             if ms \<ge> 0 then real_of_int ms / 1000
             else (case track_start_time s of
                     Some st \<Rightarrow> time_time e - st
                   | None \<Rightarrow> fallback)
         | None \<Rightarrow> fallback)"

definition toggle :: "env \<Rightarrow> player \<Rightarrow> outcome" where
  "toggle e s =
     (if playing s then
        Returned (emit StateChanged
          (s\<lparr>track_offset_seconds := track_offset_seconds s + pause_elapsed e s,
              playing := False\<rparr>))
      else if music_unpause e then
        Returned (emit StateChanged
          (s\<lparr>playing := True, track_start_time := Some (time_time e)\<rparr>))
      else if playlist s \<noteq> [] then
        (if current_index s = - 1 then Returned (play_index e 0 s)
         else case py_getitem (playlist s) (current_index s) of
                None \<Rightarrow> Raised IndexError s
              | Some path \<Rightarrow> Returned (play_internal e path (track_offset_seconds s) s))
      else Returned s)"

definition stop :: "player \<Rightarrow> player" where
  "stop s =
     emit StateChanged
       (s\<lparr>playing := False, track_start_time := None, track_offset_seconds := 0\<rparr>)"

definition next_op :: "env \<Rightarrow> player \<Rightarrow> player" where
  "next_op e s =
     (if playlist s = [] then s
      else let i = (if current_index s = - 1 then 0
                    else (current_index s + 1) mod int (length (playlist s)))
           in play_index e i (s\<lparr>current_index := i\<rparr>))"

definition prev :: "env \<Rightarrow> player \<Rightarrow> player" where
  "prev e s =
     (if playlist s = [] then s
      else let i = (if current_index s = - 1 then 0
                    else (current_index s - 1 + int (length (playlist s)))
                           mod int (length (playlist s)))
           in play_index e i (s\<lparr>current_index := i\<rparr>))"

definition set_volume :: "real \<Rightarrow> player \<Rightarrow> player" where
  "set_volume vol s = emit StateChanged (s\<lparr>volume := max 0 (min 1 vol)\<rparr>)"

definition seek :: "env \<Rightarrow> real \<Rightarrow> player \<Rightarrow> player" where
  "seek e seconds s =
     (if current_index s = - 1 \<or>
         \<not> (0 \<le> current_index s \<and> current_index s < int (length (playlist s)))
      then s
      else let path = playlist s ! nat (current_index s)
           in if \<not> is_file e path then s
              else let total = get_duration e path;
                       seconds' = max 0 (min seconds (if total > 0 then total else seconds))
                   in if device_starts e then
                        emit StateChanged (emit (TrackChanged path)
                          (s\<lparr>track_offset_seconds := seconds',
                              track_start_time := Some (time_time e),
                              playing := True\<rparr>))
                      else s)"

text \<open>The first half of \<^verbatim>\<open>_tick\<close>: the total and the elapsed seconds it reports.\<close>

definition tick_total :: "env \<Rightarrow> player \<Rightarrow> real" where
  "tick_total e s =
     (if current_index s \<noteq> - 1 \<and>
         0 \<le> current_index s \<and> current_index s < int (length (playlist s))
      then get_duration e (playlist s ! nat (current_index s))
      else 0)"

definition tick_cur :: "env \<Rightarrow> player \<Rightarrow> real" where
  "tick_cur e s =
     (case (playing s, track_start_time s) of
        (True, Some st) \<Rightarrow>
          (case music_get_pos e of
             Some ms \<Rightarrow>
               if ms \<ge> 0 then track_offset_seconds s + real_of_int ms / 1000
               else track_offset_seconds s + (time_time e - st)
           | None \<Rightarrow> track_offset_seconds s + (time_time e - st))
      | _ \<Rightarrow> track_offset_seconds s)"

text \<open>
  The whole of \<^verbatim>\<open>_tick\<close>. \<^verbatim>\<open>get_busy()\<close> is called outside any \<^verbatim>\<open>try\<close>, and only when
  \<^verbatim>\<open>self.playing\<close> holds.
\<close>

definition tick :: "env \<Rightarrow> player \<Rightarrow> outcome" where
  "tick e s =
     (let cur = tick_cur e s;
          total = tick_total e s;
          s1 = emit (PositionUpdated cur total) s
      in if playing s1 then
           (case music_get_busy e of
              None \<Rightarrow> Raised DeviceError s1
            | Some busy \<Rightarrow>
                if \<not> busy then
                  (if total > 1 \<and> cur \<ge> total - 7 / 10 then
                     Returned (next_op e (emit StateChanged (s1\<lparr>playing := False\<rparr>)))
                   else if total \<le> 1 then
                     Returned (next_op e (emit StateChanged (s1\<lparr>playing := False\<rparr>)))
                   else Returned s1)
                else Returned s1)
         else Returned s1)"

text \<open>The player as \<^verbatim>\<open>__init__\<close> leaves it.\<close>

definition init_player :: player where
  "init_player =
     \<lparr>playlist = [], current_index = - 1, playing = False, volume = 85 / 100,
      track_start_time = None, track_offset_seconds = 0, emitted = []\<rparr>"

subsection \<open>Predicates and abbreviations of the statements\<close>

text \<open>The selected index is -1 or a position of the playlist.\<close>

definition index_ok :: "player \<Rightarrow> bool" where
  "index_ok s =
     (current_index s = - 1 \<or>
      (0 \<le> current_index s \<and> current_index s < int (length (playlist s))))"

text \<open>
  The branch of \<^verbatim>\<open>_tick\<close> taken at the end of a track, as one function of the player
  the tick started from: the position is emitted, \<^verbatim>\<open>playing\<close> is cleared,
  \<^verbatim>\<open>state_changed\<close> is emitted, and only then \<^verbatim>\<open>next()\<close> runs.
\<close>

definition pause_then_next :: "env \<Rightarrow> player \<Rightarrow> player" where
  "pause_then_next e s =
     next_op e (emit StateChanged
       ((emit (PositionUpdated (tick_cur e s) (tick_total e s)) s)\<lparr>playing := False\<rparr>))"

text \<open>A fresh play of \<open>path\<close> at offset 0, seen on the player before and after.\<close>

definition fresh_play :: "env \<Rightarrow> string \<Rightarrow> player \<Rightarrow> player \<Rightarrow> bool" where
  "fresh_play e path s s' =
     (track_offset_seconds s' = 0 \<and> playing s' \<and>
      track_start_time s' = Some (time_time e) \<and>
      emitted s' = emitted s @ [TrackChanged path, StateChanged])"

text \<open>
  The device position a tick can use: \<^verbatim>\<open>get_pos()\<close> returned a non-negative number of
  milliseconds. Otherwise the tick falls back on the wall clock.
\<close>

definition telemetry :: "env \<Rightarrow> int option" where
  "telemetry e =
     (case music_get_pos e of
        Some ms \<Rightarrow> if 0 \<le> ms then Some ms else None
      | None \<Rightarrow> None)"

text \<open>
  Two ticks read the same source, and the second reading is not below the first: both
  use the device position, or both use the wall clock.
\<close>

definition later_reading :: "env \<Rightarrow> env \<Rightarrow> bool" where
  "later_reading eA eB =
     (case (telemetry eA, telemetry eB) of
        (Some a, Some b) \<Rightarrow> a \<le> b
      | (None, None) \<Rightarrow> time_time eA \<le> time_time eB
      | _ \<Rightarrow> False)"

subsection \<open>Concrete inputs\<close>

text \<open>
  A file system with three tracks, a device on which every call returns, the wall clock
  at \<open>t\<close> and the device position \<open>pos\<close>.
\<close>

definition env_ok :: "real \<Rightarrow> int option \<Rightarrow> env" where
  "env_ok t pos =
     \<lparr>is_file = (\<lambda>p. p \<in> set [''a.mp3'', ''b.mp3'', ''c.mp3'']),
      get_duration = (\<lambda>p. if p = ''a.mp3'' then 200 else 90),
      time_time = t,
      music_get_pos = pos,
      music_get_busy = Some True,
      music_load = True,
      music_play = PlayOk,
      music_play_plain = True,
      music_unpause = True\<rparr>"

definition three_tracks :: player where
  "three_tracks =
     load_playlist (env_ok 0 None) [''a.mp3'', ''missing.mp3'', ''b.mp3'', ''c.mp3'']
       init_player"

definition env_silent :: "real \<Rightarrow> int option \<Rightarrow> env" where
  "env_silent t pos = (env_ok t pos)\<lparr>music_get_busy := Some False\<rparr>"

text \<open>The first of the three tracks playing since wall clock time 100.\<close>

definition playing_a :: player where
  "playing_a = three_tracks\<lparr>playing := True, track_start_time := Some 100\<rparr>"

text \<open>The same file system with a device on which \<^verbatim>\<open>load\<close> raises.\<close>

definition env_load_fails :: "real \<Rightarrow> int option \<Rightarrow> env" where
  "env_load_fails t pos = (env_ok t pos)\<lparr>music_load := False\<rparr>"

text \<open>The first of the three tracks started by \<^verbatim>\<open>play_index(0)\<close> at wall clock time 100.\<close>

definition after_play :: player where
  "after_play = play_index (env_ok 100 None) 0 three_tracks"

section \<open>Properties\<close>

subsection \<open>Auxiliary facts\<close>

lemma emitted_emit [simp]: "emitted (emit ev s) = emitted s @ [ev]"
  by (simp add: emit_def)

lemma emit_fields [simp]:
  "playlist (emit ev s) = playlist s"
  "current_index (emit ev s) = current_index s"
  "playing (emit ev s) = playing s"
  "volume (emit ev s) = volume s"
  "track_start_time (emit ev s) = track_start_time s"
  "track_offset_seconds (emit ev s) = track_offset_seconds s"
  by (simp_all add: emit_def)

lemma three_tracks_eq:
  "three_tracks =
     \<lparr>playlist = [''a.mp3'', ''b.mp3'', ''c.mp3''], current_index = 0, playing = False,
      volume = 85 / 100, track_start_time = None, track_offset_seconds = 0, emitted = []\<rparr>"
  by (simp add: three_tracks_def load_playlist_def init_player_def env_ok_def)

lemma env_ok_sel [simp]:
  "is_file (env_ok t pos) p = (p = ''a.mp3'' \<or> p = ''b.mp3'' \<or> p = ''c.mp3'')"
  "get_duration (env_ok t pos) p = (if p = ''a.mp3'' then 200 else 90)"
  "time_time (env_ok t pos) = t"
  "music_get_pos (env_ok t pos) = pos"
  "music_get_busy (env_ok t pos) = Some True"
  "music_load (env_ok t pos)"
  "music_play (env_ok t pos) = PlayOk"
  "music_play_plain (env_ok t pos)"
  "music_unpause (env_ok t pos)"
  by (simp_all add: env_ok_def)

lemma device_starts_env_ok [simp]: "device_starts (env_ok t pos)"
  by (simp add: device_starts_def)

subsection \<open>The elapsed seconds of a poll tick\<close>

text \<open>
  Claim C2. The elapsed seconds computed by \<^verbatim>\<open>_tick\<close> are the offset when the player is
  not playing; the offset plus the device position (milliseconds, as seconds) when it is
  playing with a start time and the position is non-negative; the offset plus the wall
  clock time since the start time when it is playing with a start time and the position
  is negative or cannot be read; and the offset when it is playing without a start time.
\<close>

theorem tick_cur_cases:
  "(\<not> playing s \<longrightarrow> tick_cur e s = track_offset_seconds s) \<and>
   (playing s \<and> track_start_time s = Some st \<and> music_get_pos e = Some ms \<and> 0 \<le> ms \<longrightarrow>
      tick_cur e s = track_offset_seconds s + real_of_int ms / 1000) \<and>
   (playing s \<and> track_start_time s = Some st \<and>
      (music_get_pos e = None \<or> (\<exists>m. music_get_pos e = Some m \<and> m < 0)) \<longrightarrow>
      tick_cur e s = track_offset_seconds s + (time_time e - st)) \<and>
   (playing s \<and> track_start_time s = None \<longrightarrow> tick_cur e s = track_offset_seconds s)"
  by (auto simp: tick_cur_def)

theorem tick_cur_cases_witness:
  "tick_cur (env_ok 130 (Some 2500)) three_tracks = 0 \<and>
   tick_cur (env_ok 130 (Some 2500))
     (three_tracks\<lparr>playing := True, track_start_time := Some 100,
        track_offset_seconds := 10\<rparr>) = 10 + 2500 / 1000 \<and>
   tick_cur (env_ok 130 (Some (- 1)))
     (three_tracks\<lparr>playing := True, track_start_time := Some 100,
        track_offset_seconds := 10\<rparr>) = 10 + (130 - 100) \<and>
   tick_cur (env_ok 130 None)
     (three_tracks\<lparr>playing := True, track_start_time := Some 100,
        track_offset_seconds := 10\<rparr>) = 10 + (130 - 100) \<and>
   tick_cur (env_ok 130 (Some 2500))
     (three_tracks\<lparr>playing := True, track_offset_seconds := 10\<rparr>) = 10"
  using
    tick_cur_cases [of three_tracks "env_ok 130 (Some 2500)"]
    tick_cur_cases [of "three_tracks\<lparr>playing := True, track_start_time := Some 100,
        track_offset_seconds := 10\<rparr>" "env_ok 130 (Some 2500)" 100 2500]
    tick_cur_cases [of "three_tracks\<lparr>playing := True, track_start_time := Some 100,
        track_offset_seconds := 10\<rparr>" "env_ok 130 (Some (- 1))" 100]
    tick_cur_cases [of "three_tracks\<lparr>playing := True, track_start_time := Some 100,
        track_offset_seconds := 10\<rparr>" "env_ok 130 None" 100]
    tick_cur_cases [of "three_tracks\<lparr>playing := True, track_offset_seconds := 10\<rparr>"
        "env_ok 130 (Some 2500)"]
  by (simp add: three_tracks_eq)

subsection \<open>Loading a playlist\<close>

lemma count_list_filter:
  "count_list (filter P xs) x = (if P x then count_list xs x else 0)"
  by (induction xs) auto

text \<open>
  Claim C8. \<^verbatim>\<open>load_playlist(paths)\<close> sets the playlist to the paths that are files, in
  their order and with their multiplicities, sets the index to 0 when that list is not
  empty and to -1 otherwise, and leaves the playing flag, the offset, the start time, the
  volume and the emitted signals as they were.
\<close>

theorem load_playlist_spec:
  "playlist (load_playlist e paths s) = filter (is_file e) paths \<and>
   subseq (playlist (load_playlist e paths s)) paths \<and>
   set (playlist (load_playlist e paths s)) = {p \<in> set paths. is_file e p} \<and>
   (\<forall>p. count_list (playlist (load_playlist e paths s)) p =
          (if is_file e p then count_list paths p else 0)) \<and>
   current_index (load_playlist e paths s) =
     (if playlist (load_playlist e paths s) = [] then - 1 else 0) \<and>
   playing (load_playlist e paths s) = playing s \<and>
   track_offset_seconds (load_playlist e paths s) = track_offset_seconds s \<and>
   track_start_time (load_playlist e paths s) = track_start_time s \<and>
   volume (load_playlist e paths s) = volume s \<and>
   emitted (load_playlist e paths s) = emitted s"
  by (simp add: load_playlist_def Let_def count_list_filter)

theorem load_playlist_spec_witness:
  "playlist (load_playlist (env_ok 0 None)
      [''b.mp3'', ''x.mp3'', ''a.mp3'', ''b.mp3''] (init_player\<lparr>playing := True\<rparr>))
     = [''b.mp3'', ''a.mp3'', ''b.mp3''] \<and>
   current_index (load_playlist (env_ok 0 None)
      [''b.mp3'', ''x.mp3'', ''a.mp3'', ''b.mp3''] (init_player\<lparr>playing := True\<rparr>)) = 0 \<and>
   playing (load_playlist (env_ok 0 None)
      [''b.mp3'', ''x.mp3'', ''a.mp3'', ''b.mp3''] (init_player\<lparr>playing := True\<rparr>)) \<and>
   playlist (load_playlist (env_ok 0 None) [''x.mp3''] three_tracks) = [] \<and>
   current_index (load_playlist (env_ok 0 None) [''x.mp3''] three_tracks) = - 1"
  using
    load_playlist_spec [of "env_ok 0 None" "[''b.mp3'', ''x.mp3'', ''a.mp3'', ''b.mp3'']"
      "init_player\<lparr>playing := True\<rparr>"]
    load_playlist_spec [of "env_ok 0 None" "[''x.mp3'']" three_tracks]
  by (simp add: init_player_def)

subsection \<open>What a play appends to the emitted signals\<close>

lemma emitted_play_internal: "prefix (emitted s) (emitted (play_internal e p t s))"
  by (simp add: play_internal_def)

lemma emitted_play_index: "prefix (emitted s) (emitted (play_index e i s))"
proof -
  have "prefix (emitted (s\<lparr>current_index := i\<rparr>))
          (emitted (play_internal e p 0 (s\<lparr>current_index := i\<rparr>)))" for p
    by (rule emitted_play_internal)
  then show ?thesis
    by (simp add: play_index_def Let_def)
qed

lemma emitted_next_op: "prefix (emitted s) (emitted (next_op e s))"
proof -
  have "prefix (emitted (s\<lparr>current_index := i\<rparr>))
          (emitted (play_index e i (s\<lparr>current_index := i\<rparr>)))" for i
    by (rule emitted_play_index)
  then show ?thesis
    by (simp add: next_op_def Let_def)
qed

subsection \<open>End of track\<close>

lemma emitted_pause_then_next:
  "prefix (emitted s @ [PositionUpdated (tick_cur e s) (tick_total e s), StateChanged])
     (emitted (pause_then_next e s))"
proof -
  let ?s2 = "emit StateChanged
       ((emit (PositionUpdated (tick_cur e s) (tick_total e s)) s)\<lparr>playing := False\<rparr>)"
  have "prefix (emitted ?s2) (emitted (next_op e ?s2))"
    by (rule emitted_next_op)
  then show ?thesis
    by (simp add: pause_then_next_def)
qed

lemma pause_then_next_differs:
  "pause_then_next e s \<noteq> emit (PositionUpdated (tick_cur e s) (tick_total e s)) s"
proof
  assume eq: "pause_then_next e s = emit (PositionUpdated (tick_cur e s) (tick_total e s)) s"
  have "length (emitted s @ [PositionUpdated (tick_cur e s) (tick_total e s), StateChanged])
          \<le> length (emitted (pause_then_next e s))"
    by (rule prefix_length_le [OF emitted_pause_then_next])
  with eq show False by simp
qed

lemma tick_silent:
  assumes "playing s" and "music_get_busy e = Some False"
  shows "tick e s =
     (if tick_total e s \<le> 1 \<or> tick_total e s - 7 / 10 \<le> tick_cur e s
      then Returned (pause_then_next e s)
      else Returned (emit (PositionUpdated (tick_cur e s) (tick_total e s)) s))"
  using assms by (simp add: tick_def Let_def pause_then_next_def)

text \<open>
  Claim C3. On a tick where the player is playing and the device reports that no sound is
  audible: with a total above 1 second the tick advances (clears \<^verbatim>\<open>playing\<close>, emits
  \<^verbatim>\<open>state_changed\<close>, then runs \<^verbatim>\<open>next()\<close>) exactly when the elapsed seconds are at
  least the total minus 0.7; with a total of at most 1 second it always advances; with a
  total above 1 second and fewer elapsed seconds it only emits the position. In an
  advance the \<^verbatim>\<open>state_changed\<close> signal comes before anything \<^verbatim>\<open>next()\<close> emits.
\<close>

theorem tick_end_of_track:
  assumes "playing s" and "music_get_busy e = Some False"
  shows
    "(1 < tick_total e s \<longrightarrow>
        (tick e s = Returned (pause_then_next e s)
           \<longleftrightarrow> tick_total e s - 7 / 10 \<le> tick_cur e s)) \<and>
     (tick_total e s \<le> 1 \<longrightarrow> tick e s = Returned (pause_then_next e s)) \<and>
     (1 < tick_total e s \<and> tick_cur e s < tick_total e s - 7 / 10 \<longrightarrow>
        tick e s = Returned (emit (PositionUpdated (tick_cur e s) (tick_total e s)) s)) \<and>
     prefix (emitted s @ [PositionUpdated (tick_cur e s) (tick_total e s), StateChanged])
       (emitted (pause_then_next e s))"
  using tick_silent [OF assms] pause_then_next_differs [of e s]
    emitted_pause_then_next [of s e]
  by auto

lemma env_silent_sel [simp]:
  "is_file (env_silent t pos) p = (p = ''a.mp3'' \<or> p = ''b.mp3'' \<or> p = ''c.mp3'')"
  "get_duration (env_silent t pos) p = (if p = ''a.mp3'' then 200 else 90)"
  "time_time (env_silent t pos) = t"
  "music_get_pos (env_silent t pos) = pos"
  "music_get_busy (env_silent t pos) = Some False"
  "device_starts (env_silent t pos)"
  by (simp_all add: env_silent_def env_ok_def device_starts_def)

lemma playing_a_eq:
  "playing_a =
     \<lparr>playlist = [''a.mp3'', ''b.mp3'', ''c.mp3''], current_index = 0, playing = True,
      volume = 85 / 100, track_start_time = Some 100, track_offset_seconds = 0,
      emitted = []\<rparr>"
  by (simp add: playing_a_def three_tracks_eq)

theorem tick_end_of_track_witness:
  "tick (env_silent 2995 (Some (- 1))) (playing_a\<lparr>track_start_time := Some 2795.5\<rparr>) =
     Returned
       \<lparr>playlist = [''a.mp3'', ''b.mp3'', ''c.mp3''], current_index = 1, playing = True,
        volume = 85 / 100, track_start_time = Some 2995, track_offset_seconds = 0,
        emitted = [PositionUpdated 199.5 200, StateChanged,
                   TrackChanged ''b.mp3'', StateChanged]\<rparr> \<and>
   tick (env_silent 150 (Some 50000)) playing_a =
     Returned (emit (PositionUpdated 50 200) playing_a) \<and>
   tick ((env_silent 150 (Some 50000))\<lparr>get_duration := (\<lambda>p. 0)\<rparr>) playing_a =
     Returned
       (pause_then_next ((env_silent 150 (Some 50000))\<lparr>get_duration := (\<lambda>p. 0)\<rparr>)
          playing_a)"
  using
    tick_end_of_track [of "playing_a\<lparr>track_start_time := Some 2795.5\<rparr>"
      "env_silent 2995 (Some (- 1))"]
    tick_end_of_track [of playing_a "env_silent 150 (Some 50000)"]
    tick_end_of_track [of playing_a
      "(env_silent 150 (Some 50000))\<lparr>get_duration := (\<lambda>p. 0)\<rparr>"]
  by (simp add: playing_a_eq tick_cur_def tick_total_def pause_then_next_def next_op_def
      play_index_def play_internal_def emit_def Let_def)

subsection \<open>Next and previous\<close>

lemma play_index_sets_index:
  assumes "0 \<le> i" and "i < int (length (playlist s))"
  shows "current_index (play_index e i (s\<lparr>current_index := i\<rparr>)) = i"
  using assms by (simp add: play_index_def Let_def play_internal_def)

lemma play_index_fresh:
  assumes "0 \<le> i" and "i < int (length (playlist s))"
    and "is_file e (playlist s ! nat i)" and "device_starts e"
  shows "fresh_play e (playlist s ! nat i) s (play_index e i (s\<lparr>current_index := j\<rparr>))"
  using assms by (auto simp: play_index_def Let_def play_internal_def fresh_play_def)

text \<open>
  Claim C5. On a playlist of \<open>n > 0\<close> paths, \<^verbatim>\<open>next()\<close> sets the index to
  \<open>(index + 1) mod n\<close> and \<^verbatim>\<open>prev()\<close> to \<open>(index - 1 + n) mod n\<close>, and from index
  -1 both set it to 0. The path at the new index is then played afresh at offset 0
  (when it is a file and the device starts it).
\<close>

theorem next_prev_wrap:
  assumes "playlist s \<noteq> []"
  shows
    "current_index (next_op e s) =
       (if current_index s = - 1 then 0
        else (current_index s + 1) mod int (length (playlist s))) \<and>
     current_index (prev e s) =
       (if current_index s = - 1 then 0
        else (current_index s - 1 + int (length (playlist s))) mod int (length (playlist s))) \<and>
     (device_starts e \<and> is_file e (playlist s ! nat (current_index (next_op e s))) \<longrightarrow>
        fresh_play e (playlist s ! nat (current_index (next_op e s))) s (next_op e s)) \<and>
     (device_starts e \<and> is_file e (playlist s ! nat (current_index (prev e s))) \<longrightarrow>
        fresh_play e (playlist s ! nat (current_index (prev e s))) s (prev e s))"
proof -
  let ?n = "int (length (playlist s))"
  let ?i = "if current_index s = - 1 then 0 else (current_index s + 1) mod ?n"
  let ?j = "if current_index s = - 1 then 0 else (current_index s - 1 + ?n) mod ?n"
  from assms have n: "0 < ?n" by simp
  have i: "0 \<le> ?i" "?i < ?n" and j: "0 \<le> ?j" "?j < ?n"
    using n by simp_all
  have nx: "next_op e s = play_index e ?i (s\<lparr>current_index := ?i\<rparr>)"
    and pv: "prev e s = play_index e ?j (s\<lparr>current_index := ?j\<rparr>)"
    using assms by (simp_all add: next_op_def prev_def Let_def)
  have ci: "current_index (next_op e s) = ?i"
    unfolding nx using i by (intro play_index_sets_index) simp_all
  have cj: "current_index (prev e s) = ?j"
    unfolding pv using j by (intro play_index_sets_index) simp_all
  have fi: "fresh_play e (playlist s ! nat ?i) s (next_op e s)"
    if "device_starts e" "is_file e (playlist s ! nat ?i)"
    unfolding nx using i that by (intro play_index_fresh) simp_all
  have fj: "fresh_play e (playlist s ! nat ?j) s (prev e s)"
    if "device_starts e" "is_file e (playlist s ! nat ?j)"
    unfolding pv using j that by (intro play_index_fresh) simp_all
  show ?thesis
    using ci cj fi fj by presburger
qed

theorem next_prev_wrap_witness:
  "current_index (next_op (env_ok 50 None) (three_tracks\<lparr>current_index := 2\<rparr>)) = 0 \<and>
   current_index (prev (env_ok 50 None) three_tracks) = 2 \<and>
   current_index (next_op (env_ok 50 None) (three_tracks\<lparr>current_index := - 1\<rparr>)) = 0 \<and>
   current_index (prev (env_ok 50 None) (three_tracks\<lparr>current_index := - 1\<rparr>)) = 0 \<and>
   fresh_play (env_ok 50 None) ''a.mp3'' (three_tracks\<lparr>current_index := 2\<rparr>)
     (next_op (env_ok 50 None) (three_tracks\<lparr>current_index := 2\<rparr>)) \<and>
   fresh_play (env_ok 50 None) ''c.mp3'' three_tracks (prev (env_ok 50 None) three_tracks)"
  using
    next_prev_wrap [of "three_tracks\<lparr>current_index := 2\<rparr>" "env_ok 50 None"]
    next_prev_wrap [of three_tracks "env_ok 50 None"]
    next_prev_wrap [of "three_tracks\<lparr>current_index := - 1\<rparr>" "env_ok 50 None"]
  by (simp add: three_tracks_eq)

subsection \<open>Seeking\<close>

lemma emitted_tick:
  "prefix (emitted s @ [PositionUpdated (tick_cur e s) (tick_total e s)])
     (emitted (state_of (tick e s)))"
proof -
  let ?s1 = "emit (PositionUpdated (tick_cur e s) (tick_total e s)) s"
  let ?s2 = "emit StateChanged (?s1\<lparr>playing := False\<rparr>)"
  have "prefix (emitted ?s2) (emitted (next_op e ?s2))"
    by (rule emitted_next_op)
  then have "prefix (emitted ?s1) (emitted (next_op e ?s2))"
    by (simp add: append_prefixD)
  then show ?thesis
    by (simp add: tick_def Let_def split: option.split)
qed

text \<open>
  Claim C4. With a selected track whose file exists (and a device that starts it),
  \<^verbatim>\<open>seek(x)\<close> sets the offset to \<open>x\<close> clamped into \<open>[0, duration]\<close> when the duration is
  positive, and to \<open>x\<close> clamped below at 0 otherwise; it sets the start time to now and
  \<^verbatim>\<open>playing\<close> to true, and leaves the playlist and the index alone. The next tick
  reports that offset plus what has elapsed since the seek, and emits it.
\<close>

theorem seek_clamps:
  assumes "0 \<le> current_index s" and "current_index s < int (length (playlist s))"
    and "is_file e (playlist s ! nat (current_index s))"
    and "device_starts e"
    and "d = get_duration e (playlist s ! nat (current_index s))"
  shows
    "track_offset_seconds (seek e x s) =
       (if 0 < d then (if x < 0 then 0 else if d < x then d else x)
        else (if x < 0 then 0 else x)) \<and>
     0 \<le> track_offset_seconds (seek e x s) \<and>
     (0 < d \<longrightarrow> track_offset_seconds (seek e x s) \<le> d) \<and>
     track_start_time (seek e x s) = Some (time_time e) \<and>
     playing (seek e x s) \<and>
     playlist (seek e x s) = playlist s \<and>
     current_index (seek e x s) = current_index s \<and>
     emitted (seek e x s) =
       emitted s @ [TrackChanged (playlist s ! nat (current_index s)), StateChanged] \<and>
     tick_cur e' (seek e x s) =
       track_offset_seconds (seek e x s) +
         (case music_get_pos e' of
            Some ms \<Rightarrow> if 0 \<le> ms then real_of_int ms / 1000 else time_time e' - time_time e
          | None \<Rightarrow> time_time e' - time_time e) \<and>
     prefix (emitted (seek e x s) @
               [PositionUpdated (tick_cur e' (seek e x s)) (tick_total e' (seek e x s))])
       (emitted (state_of (tick e' (seek e x s))))"
proof -
  let ?p = "playlist s ! nat (current_index s)"
  let ?c = "max 0 (min x (if 0 < d then d else x))"
  have sk: "seek e x s =
      emit StateChanged (emit (TrackChanged ?p)
        (s\<lparr>track_offset_seconds := ?c, track_start_time := Some (time_time e),
            playing := True\<rparr>))"
    using assms by (auto simp: seek_def Let_def)
  have c: "?c = (if 0 < d then (if x < 0 then 0 else if d < x then d else x)
        else (if x < 0 then 0 else x))"
    by (simp add: max_def min_def)
  have off: "track_offset_seconds (seek e x s) = ?c"
    by (simp add: sk)
  have cur: "tick_cur e' (seek e x s) =
       track_offset_seconds (seek e x s) +
         (case music_get_pos e' of
            Some ms \<Rightarrow> if 0 \<le> ms then real_of_int ms / 1000 else time_time e' - time_time e
          | None \<Rightarrow> time_time e' - time_time e)"
    by (simp add: sk tick_cur_def split: option.split)
  have rest: "track_start_time (seek e x s) = Some (time_time e)" "playing (seek e x s)"
    "playlist (seek e x s) = playlist s" "current_index (seek e x s) = current_index s"
    "emitted (seek e x s) = emitted s @ [TrackChanged ?p, StateChanged]"
    by (simp_all add: sk)
  have bounds: "0 \<le> ?c" "0 < d \<longrightarrow> ?c \<le> d"
    by (simp_all add: max_def min_def)
  show ?thesis
    using off c bounds rest cur emitted_tick [of "seek e x s" e']
    by simp
qed

theorem seek_clamps_witness:
  "track_offset_seconds (seek (env_ok 300 None) (- 5) playing_a) = 0 \<and>
   track_offset_seconds (seek (env_ok 300 None) 500 playing_a) = 200 \<and>
   track_offset_seconds (seek (env_ok 300 None) 42 playing_a) = 42 \<and>
   track_offset_seconds
     (seek ((env_ok 300 None)\<lparr>get_duration := (\<lambda>p. 0)\<rparr>) 500 playing_a) = 500 \<and>
   track_start_time (seek (env_ok 300 None) 500 playing_a) = Some 300 \<and>
   playing (seek (env_ok 300 None) 500 three_tracks) \<and>
   tick_cur (env_ok 300 (Some 0)) (seek (env_ok 300 None) 500 playing_a) = 200"
  using
    seek_clamps [of playing_a "env_ok 300 None" 200 "- 5"]
    seek_clamps [of playing_a "env_ok 300 None" 200 500 "env_ok 300 (Some 0)"]
    seek_clamps [of playing_a "env_ok 300 None" 200 42]
    seek_clamps [of playing_a "(env_ok 300 None)\<lparr>get_duration := (\<lambda>p. 0)\<rparr>" 0 500]
    seek_clamps [of three_tracks "env_ok 300 None" 200 500]
  by (simp add: playing_a_eq three_tracks_eq device_starts_def)

subsection \<open>Playing a path\<close>

lemma list_index_None: "list_index xs x = None \<longleftrightarrow> x \<notin> set xs"
  by (induction xs) auto

lemma list_index_first:
  "list_index xs x = Some i \<Longrightarrow> i < length xs \<and> xs ! i = x \<and> (\<forall>j<i. xs ! j \<noteq> x)"
proof (induction xs arbitrary: i)
  case Nil
  then show ?case by simp
next
  case (Cons y ys)
  show ?case
  proof (cases "y = x")
    case True
    with Cons.prems show ?thesis by simp
  next
    case False
    with Cons.prems obtain k where k: "list_index ys x = Some k" and i: "i = Suc k"
      by auto
    from Cons.IH [OF k] have "k < length ys" "ys ! k = x" "\<forall>j<k. ys ! j \<noteq> x"
      by simp_all
    with False i show ?thesis
      by (auto simp: nth_Cons split: nat.split)
  qed
qed

text \<open>
  Claim C9. \<^verbatim>\<open>play_path(p)\<close> changes nothing when \<open>p\<close> is not a file. When \<open>p\<close> is a
  file and occurs in the playlist, it is \<^verbatim>\<open>play_index(i)\<close> for the first position \<open>i\<close>
  of \<open>p\<close>. When \<open>p\<close> is a file outside the playlist, the index is set to -1 and \<open>p\<close>
  is played at offset 0 (a fresh play when the device starts it).
\<close>

theorem play_path_cases:
  "(\<not> is_file e p \<longrightarrow> play_path e p s = s) \<and>
   (is_file e p \<and> p \<in> set (playlist s) \<longrightarrow>
      (\<exists>i. i < length (playlist s) \<and> playlist s ! i = p \<and>
           (\<forall>j<i. playlist s ! j \<noteq> p) \<and>
           play_path e p s = play_index e (int i) s)) \<and>
   (is_file e p \<and> p \<notin> set (playlist s) \<longrightarrow>
      play_path e p s = play_internal e p 0 (s\<lparr>current_index := - 1\<rparr>) \<and>
      current_index (play_path e p s) = - 1 \<and>
      playlist (play_path e p s) = playlist s \<and>
      (device_starts e \<longrightarrow> fresh_play e p s (play_path e p s)))"
proof (intro conjI impI)
  assume "\<not> is_file e p"
  then show "play_path e p s = s"
    by (simp add: play_path_def)
next
  assume a: "is_file e p \<and> p \<in> set (playlist s)"
  then obtain i where i: "list_index (playlist s) p = Some i"
    using list_index_None [of "playlist s" p] by auto
  from a i have "play_path e p s = play_index e (int i) s"
    by (simp add: play_path_def)
  with list_index_first [OF i]
  show "\<exists>i. i < length (playlist s) \<and> playlist s ! i = p \<and>
           (\<forall>j<i. playlist s ! j \<noteq> p) \<and>
           play_path e p s = play_index e (int i) s"
    by blast
next
  assume a: "is_file e p \<and> p \<notin> set (playlist s)"
  then have n: "list_index (playlist s) p = None"
    by (simp add: list_index_None)
  with a show eq: "play_path e p s = play_internal e p 0 (s\<lparr>current_index := - 1\<rparr>)"
    by (simp add: play_path_def)
  show "current_index (play_path e p s) = - 1"
    by (simp add: eq play_internal_def)
  show "playlist (play_path e p s) = playlist s"
    by (simp add: eq play_internal_def)
  assume "device_starts e"
  then show "fresh_play e p s (play_path e p s)"
    by (simp add: eq play_internal_def fresh_play_def)
qed

theorem play_path_cases_witness:
  "play_path (env_ok 7 None) ''x.mp3'' three_tracks = three_tracks \<and>
   play_path (env_ok 7 None) ''b.mp3''
       (three_tracks\<lparr>playlist := [''a.mp3'', ''b.mp3'', ''c.mp3'', ''b.mp3'']\<rparr>) =
     play_index (env_ok 7 None) 1
       (three_tracks\<lparr>playlist := [''a.mp3'', ''b.mp3'', ''c.mp3'', ''b.mp3'']\<rparr>) \<and>
   current_index (play_path (env_ok 7 None) ''c.mp3''
       (three_tracks\<lparr>playlist := [''a.mp3'', ''b.mp3'']\<rparr>)) = - 1 \<and>
   fresh_play (env_ok 7 None) ''c.mp3'' (three_tracks\<lparr>playlist := [''a.mp3'', ''b.mp3'']\<rparr>)
     (play_path (env_ok 7 None) ''c.mp3'' (three_tracks\<lparr>playlist := [''a.mp3'', ''b.mp3'']\<rparr>))"
proof -
  let ?e = "env_ok 7 None"
  let ?s4 = "three_tracks\<lparr>playlist := [''a.mp3'', ''b.mp3'', ''c.mp3'', ''b.mp3'']\<rparr>"
  let ?s2 = "three_tracks\<lparr>playlist := [''a.mp3'', ''b.mp3'']\<rparr>"
  have 1: "play_path ?e ''x.mp3'' three_tracks = three_tracks"
    using play_path_cases [of ?e "''x.mp3''" three_tracks] by simp
  have "\<exists>i. i < length [''a.mp3'', ''b.mp3'', ''c.mp3'', ''b.mp3''] \<and>
      [''a.mp3'', ''b.mp3'', ''c.mp3'', ''b.mp3''] ! i = ''b.mp3'' \<and>
      (\<forall>j<i. [''a.mp3'', ''b.mp3'', ''c.mp3'', ''b.mp3''] ! j \<noteq> ''b.mp3'') \<and>
      play_path ?e ''b.mp3'' ?s4 = play_index ?e (int i) ?s4"
    using play_path_cases [of ?e "''b.mp3''" ?s4] by simp
  then obtain i where i: "i < length [''a.mp3'', ''b.mp3'', ''c.mp3'', ''b.mp3'']"
      "[''a.mp3'', ''b.mp3'', ''c.mp3'', ''b.mp3''] ! i = ''b.mp3''"
      "\<forall>j<i. [''a.mp3'', ''b.mp3'', ''c.mp3'', ''b.mp3''] ! j \<noteq> ''b.mp3''"
      "play_path ?e ''b.mp3'' ?s4 = play_index ?e (int i) ?s4"
    by blast
  from i(1) have "i = 0 \<or> i = 1 \<or> i = 2 \<or> i = 3" by (simp add: less_Suc_eq) arith
  moreover have "i \<noteq> 3"
  proof
    assume "i = 3"
    with i(3) have "[''a.mp3'', ''b.mp3'', ''c.mp3'', ''b.mp3''] ! 1 \<noteq> ''b.mp3''"
      by (metis one_less_numeral_iff semiring_norm(77))
    then show False by simp
  qed
  ultimately have "i = 1" using i(2) by auto
  with i(4) have 2: "play_path ?e ''b.mp3'' ?s4 = play_index ?e 1 ?s4" by simp
  have c: "is_file ?e ''c.mp3'' \<and> ''c.mp3'' \<notin> set (playlist ?s2)" "device_starts ?e"
    by simp_all
  have 3: "current_index (play_path ?e ''c.mp3'' ?s2) = - 1 \<and>
      fresh_play ?e ''c.mp3'' ?s2 (play_path ?e ''c.mp3'' ?s2)"
    using play_path_cases [of ?e "''c.mp3''" ?s2] c by blast
  show ?thesis using 1 2 3 by simp
qed

subsection \<open>The selected index stays in range\<close>

lemma play_internal_frame [simp]:
  "playlist (play_internal e p t s) = playlist s"
  "current_index (play_internal e p t s) = current_index s"
  "volume (play_internal e p t s) = volume s"
  by (simp_all add: play_internal_def)

lemma index_ok_emit [simp]: "index_ok (emit ev s) = index_ok s"
  by (simp add: index_ok_def)

lemma index_ok_play_internal [simp]: "index_ok (play_internal e p t s) = index_ok s"
  by (simp add: index_ok_def)

lemma index_ok_play_index: "index_ok s \<Longrightarrow> index_ok (play_index e i s)"
  by (simp add: play_index_def Let_def) (simp add: index_ok_def)

lemma index_ok_load_playlist: "index_ok (load_playlist e paths s)"
  by (simp add: load_playlist_def Let_def index_ok_def)

lemma index_ok_play_path: "index_ok s \<Longrightarrow> index_ok (play_path e p s)"
  by (simp add: play_path_def index_ok_play_index split: option.split)
    (simp add: index_ok_def)

lemma index_ok_next_op: "index_ok s \<Longrightarrow> index_ok (next_op e s)"
proof -
  assume ok: "index_ok s"
  have "index_ok (play_index e i (s\<lparr>current_index := i\<rparr>))"
    if "0 \<le> i" "i < int (length (playlist s))" for i
    using that by (intro index_ok_play_index) (simp add: index_ok_def)
  with ok show ?thesis
    by (simp add: next_op_def Let_def)
qed

lemma index_ok_prev: "index_ok s \<Longrightarrow> index_ok (prev e s)"
proof -
  assume ok: "index_ok s"
  have "index_ok (play_index e i (s\<lparr>current_index := i\<rparr>))"
    if "0 \<le> i" "i < int (length (playlist s))" for i
    using that by (intro index_ok_play_index) (simp add: index_ok_def)
  with ok show ?thesis
    by (simp add: prev_def Let_def)
qed

lemma index_ok_seek: "index_ok s \<Longrightarrow> index_ok (seek e x s)"
  by (simp add: seek_def Let_def) (simp add: index_ok_def)

lemma py_getitem_in_range:
  "0 \<le> i \<Longrightarrow> i < int (length xs) \<Longrightarrow> py_getitem xs i = Some (xs ! nat i)"
  by (simp add: py_getitem_def)

lemma toggle_returns:
  assumes "index_ok s"
  shows "\<exists>s'. toggle e s = Returned s' \<and> index_ok s'"
proof (cases "playing s \<or> music_unpause e \<or> playlist s = [] \<or> current_index s = - 1")
  case True
  with assms show ?thesis
    by (auto simp: toggle_def index_ok_play_index) (simp_all add: index_ok_def)
next
  case False
  with assms have r: "0 \<le> current_index s" "current_index s < int (length (playlist s))"
    by (simp_all add: index_ok_def)
  from False py_getitem_in_range [OF r] assms show ?thesis
    by (simp add: toggle_def)
qed

lemma index_ok_tick: "index_ok s \<Longrightarrow> index_ok (state_of (tick e s))"
proof -
  assume ok: "index_ok s"
  let ?s1 = "emit (PositionUpdated (tick_cur e s) (tick_total e s)) s"
  have "index_ok (emit StateChanged (?s1\<lparr>playing := False\<rparr>))"
    using ok by (simp add: index_ok_def)
  then have "index_ok (next_op e (emit StateChanged (?s1\<lparr>playing := False\<rparr>)))"
    by (rule index_ok_next_op)
  with ok show ?thesis
    by (simp add: tick_def Let_def split: option.split)
qed

text \<open>
  Claim C10. The index is -1 or a position of the playlist: this holds of the initial
  player, \<^verbatim>\<open>load_playlist\<close> establishes it, and every other operation and the poll tick
  keep it (\<^verbatim>\<open>toggle\<close> then returns without an IndexError). \<^verbatim>\<open>current_track()\<close> is the
  playlist entry at the index when \<open>0 \<le> index < len(playlist)\<close> and \<open>None\<close> otherwise.
\<close>

theorem index_ok_kept:
  assumes "index_ok s"
  shows
    "index_ok init_player \<and>
     index_ok (load_playlist e paths s) \<and>
     index_ok (play_index e i s) \<and>
     index_ok (play_path e p s) \<and>
     (\<exists>s'. toggle e s = Returned s' \<and> index_ok s') \<and>
     index_ok (stop s) \<and>
     index_ok (next_op e s) \<and>
     index_ok (prev e s) \<and>
     index_ok (seek e x s) \<and>
     index_ok (set_volume v s) \<and>
     index_ok (state_of (tick e s)) \<and>
     current_track s =
       (if 0 \<le> current_index s \<and> current_index s < int (length (playlist s))
        then Some (playlist s ! nat (current_index s)) else None)"
proof -
  have "index_ok init_player"
    by (simp add: index_ok_def init_player_def)
  moreover have "index_ok (stop s)" "index_ok (set_volume v s)"
    using assms by (simp_all add: stop_def set_volume_def) (simp_all add: index_ok_def)
  moreover have "current_track s =
       (if 0 \<le> current_index s \<and> current_index s < int (length (playlist s))
        then Some (playlist s ! nat (current_index s)) else None)"
    by (simp add: current_track_def)
  ultimately show ?thesis
    using assms index_ok_load_playlist [of e paths s] index_ok_play_index [of s e i]
      index_ok_play_path [of s e p] toggle_returns [of s e] index_ok_next_op [of s e]
      index_ok_prev [of s e] index_ok_seek [of s e x] index_ok_tick [of s e]
    by blast
qed

theorem index_ok_kept_witness:
  "index_ok three_tracks \<and>
   index_ok (play_index (env_ok 1 None) 2 three_tracks) \<and>
   index_ok (prev (env_ok 1 None) three_tracks) \<and>
   index_ok (state_of (tick (env_silent 1 None) playing_a)) \<and>
   (\<exists>s'. toggle (env_ok 1 None) three_tracks = Returned s' \<and> index_ok s') \<and>
   current_track three_tracks = Some ''a.mp3''"
proof -
  have ok: "index_ok three_tracks" "index_ok playing_a"
    by (simp_all add: index_ok_def playing_a_eq three_tracks_eq)
  show ?thesis
    using ok index_ok_kept [OF ok(1), of "env_ok 1 None" _ 2]
      index_ok_kept [OF ok(2), of "env_silent 1 None"]
    by (simp add: three_tracks_eq)
qed

subsection \<open>An empty playlist\<close>

text \<open>
  Claim C7, as stated, fails: after \<^verbatim>\<open>load_playlist([])\<close> on the initial player,
  \<^verbatim>\<open>toggle()\<close> on a device whose \<^verbatim>\<open>unpause\<close> returns sets \<^verbatim>\<open>playing\<close>, and
  \<^verbatim>\<open>stop()\<close> emits \<^verbatim>\<open>state_changed\<close>.
\<close>

theorem empty_playlist_counterexample:
  "current_index (load_playlist (env_ok 5 None) [] init_player) = - 1 \<and>
   \<not> playing (load_playlist (env_ok 5 None) [] init_player) \<and>
   playing (state_of (toggle (env_ok 5 None) (load_playlist (env_ok 5 None) [] init_player))) \<and>
   stop (load_playlist (env_ok 5 None) [] init_player)
     \<noteq> load_playlist (env_ok 5 None) [] init_player"
  by (simp add: load_playlist_def init_player_def toggle_def stop_def emit_def)

text \<open>
  Claim C7, amended. After \<^verbatim>\<open>load_playlist([])\<close> the index is -1 and the playlist is
  empty, and from that player \<^verbatim>\<open>play_index\<close>, \<^verbatim>\<open>next\<close>, \<^verbatim>\<open>prev\<close> and \<^verbatim>\<open>seek\<close>
  change nothing. \<^verbatim>\<open>toggle\<close> and \<^verbatim>\<open>stop\<close> keep the playlist empty and the index at -1;
  \<^verbatim>\<open>toggle\<close> changes nothing when the player is not playing and \<^verbatim>\<open>unpause\<close> raises.
\<close>

theorem empty_playlist_noops:
  assumes "s' = load_playlist e0 [] s"
  shows
    "current_index s' = - 1 \<and> playlist s' = [] \<and>
     play_index e i s' = s' \<and>
     next_op e s' = s' \<and>
     prev e s' = s' \<and>
     seek e x s' = s' \<and>
     playlist (state_of (toggle e s')) = [] \<and>
     current_index (state_of (toggle e s')) = - 1 \<and>
     playlist (stop s') = [] \<and>
     current_index (stop s') = - 1 \<and>
     (\<not> playing s \<and> \<not> music_unpause e \<longrightarrow> toggle e s' = Returned s')"
proof -
  have s': "current_index s' = - 1" "playlist s' = []" "playing s' = playing s"
    using assms by (simp_all add: load_playlist_def)
  then show ?thesis
    by (simp add: play_index_def next_op_def prev_def seek_def toggle_def stop_def)
qed

theorem empty_playlist_noops_witness:
  "play_index (env_ok 5 None) 0 (load_playlist (env_ok 5 None) [] playing_a)
     = load_playlist (env_ok 5 None) [] playing_a \<and>
   next_op (env_ok 5 None) (load_playlist (env_ok 5 None) [] playing_a)
     = load_playlist (env_ok 5 None) [] playing_a \<and>
   seek (env_ok 5 None) 30 (load_playlist (env_ok 5 None) [] playing_a)
     = load_playlist (env_ok 5 None) [] playing_a \<and>
   toggle ((env_ok 5 None)\<lparr>music_unpause := False\<rparr>)
       (load_playlist (env_ok 5 None) [] three_tracks)
     = Returned (load_playlist (env_ok 5 None) [] three_tracks)"
  using
    empty_playlist_noops [OF refl, where e = "env_ok 5 None" and i = 0
      and ?e0.0 = "env_ok 5 None" and s = playing_a and x = 30]
    empty_playlist_noops [OF refl, where e = "(env_ok 5 None)\<lparr>music_unpause := False\<rparr>"
      and ?e0.0 = "env_ok 5 None" and s = three_tracks]
  by (simp add: three_tracks_eq)

subsection \<open>A device that fails to start a track\<close>

text \<open>
  Claim C6, as stated, fails: on a device whose \<^verbatim>\<open>load\<close> raises,
  \<^verbatim>\<open>play_index(1)\<close> moves the index from 0 to 1.
\<close>

theorem device_failure_counterexample:
  "\<not> device_starts (env_load_fails 5 None) \<and>
   current_index three_tracks = 0 \<and>
   current_index (play_index (env_load_fails 5 None) 1 three_tracks) = 1"
  by (simp add: env_load_fails_def env_ok_def device_starts_def play_index_def
      play_internal_def three_tracks_eq)

text \<open>
  Claim C6, amended. When the device's load or play call raises, \<^verbatim>\<open>_play_internal\<close>
  and \<^verbatim>\<open>seek\<close> change nothing; \<^verbatim>\<open>play_index\<close> and \<^verbatim>\<open>play_path\<close> change nothing but
  the index, which they have set to their target before calling the device; \<^verbatim>\<open>toggle\<close>
  on a paused player whose \<^verbatim>\<open>unpause\<close> raised as well changes nothing but the index,
  and that only from -1. No exception leaves \<^verbatim>\<open>toggle\<close>.
\<close>

theorem device_failure_frame:
  assumes "\<not> device_starts e"
  shows
    "play_internal e p t s = s \<and>
     seek e x s = s \<and>
     play_index e i s =
       (if playlist s \<noteq> [] \<and> 0 \<le> i \<and> i < int (length (playlist s)) \<and>
           is_file e (playlist s ! nat i)
        then s\<lparr>current_index := i\<rparr> else s) \<and>
     play_path e p s =
       (if is_file e p
        then s\<lparr>current_index :=
                 (case list_index (playlist s) p of Some k \<Rightarrow> int k | None \<Rightarrow> - 1)\<rparr>
        else s) \<and>
     (\<not> playing s \<and> \<not> music_unpause e \<and> index_ok s \<longrightarrow>
        toggle e s =
          Returned (if playlist s \<noteq> [] \<and> current_index s = - 1 \<and> is_file e (playlist s ! 0)
                    then s\<lparr>current_index := 0\<rparr> else s))"
proof -
  have pi: "play_internal e q u r = r" for q u r
    using assms by (simp add: play_internal_def)
  have sk: "seek e x s = s"
    using assms by (simp add: seek_def Let_def)
  have px: "play_index e j s =
       (if playlist s \<noteq> [] \<and> 0 \<le> j \<and> j < int (length (playlist s)) \<and>
           is_file e (playlist s ! nat j)
        then s\<lparr>current_index := j\<rparr> else s)" for j
    by (auto simp: play_index_def Let_def pi)
  have pp: "play_path e p s =
       (if is_file e p
        then s\<lparr>current_index :=
                 (case list_index (playlist s) p of Some k \<Rightarrow> int k | None \<Rightarrow> - 1)\<rparr>
        else s)"
  proof (cases "list_index (playlist s) p")
    case None
    then show ?thesis by (simp add: play_path_def pi)
  next
    case (Some k)
    from list_index_first [OF Some] have "k < length (playlist s)" "playlist s ! k = p"
      by simp_all
    with Some show ?thesis
      by (auto simp: play_path_def px)
  qed
  have tg: "toggle e s =
          Returned (if playlist s \<noteq> [] \<and> current_index s = - 1 \<and> is_file e (playlist s ! 0)
                    then s\<lparr>current_index := 0\<rparr> else s)"
    if "\<not> playing s" "\<not> music_unpause e" "index_ok s"
  proof (cases "playlist s = [] \<or> current_index s = - 1")
    case True
    with that show ?thesis
      by (auto simp: toggle_def px)
  next
    case False
    with that have r: "0 \<le> current_index s" "current_index s < int (length (playlist s))"
      by (simp_all add: index_ok_def)
    from False that py_getitem_in_range [OF r] show ?thesis
      by (simp add: toggle_def pi)
  qed
  show ?thesis
    using pi [of p t s] sk px [of i] pp tg by blast
qed

theorem device_failure_frame_witness:
  "seek (env_load_fails 5 None) 30 playing_a = playing_a \<and>
   play_index (env_load_fails 5 None) 1 three_tracks = three_tracks\<lparr>current_index := 1\<rparr> \<and>
   play_path (env_load_fails 5 None) ''c.mp3'' playing_a = playing_a\<lparr>current_index := 2\<rparr> \<and>
   toggle ((env_load_fails 5 None)\<lparr>music_unpause := False\<rparr>) three_tracks
     = Returned three_tracks"
proof -
  have f: "\<not> device_starts (env_load_fails 5 None)"
    "\<not> device_starts ((env_load_fails 5 None)\<lparr>music_unpause := False\<rparr>)"
    by (simp_all add: env_load_fails_def env_ok_def device_starts_def)
  have ok: "index_ok three_tracks"
    by (simp add: index_ok_def three_tracks_eq)
  have e: "is_file (env_load_fails 5 None) = is_file (env_ok 5 None)"
    "\<not> music_unpause ((env_load_fails 5 None)\<lparr>music_unpause := False\<rparr>)"
    by (simp_all add: env_load_fails_def)
  show ?thesis
    using device_failure_frame [OF f(1), where s = playing_a and x = 30]
      device_failure_frame [OF f(1), where p = "''c.mp3''" and s = playing_a]
      device_failure_frame [OF f(1), where s = three_tracks and i = 1]
      device_failure_frame [OF f(2), where s = three_tracks] ok e
    by (simp add: playing_a_eq three_tracks_eq)
qed

subsection \<open>Elapsed seconds across pause and resume\<close>

lemma play_index_plays:
  assumes "0 \<le> i" and "i < int (length (playlist s))"
    and "is_file e (playlist s ! nat i)" and "device_starts e"
  shows "playing (play_index e i s)"
    and "track_start_time (play_index e i s) = Some (time_time e)"
    and "track_offset_seconds (play_index e i s) = 0"
    and "current_index (play_index e i s) = i"
    and "playlist (play_index e i s) = playlist s"
  using assms by (auto simp: play_index_def Let_def play_internal_def)

lemma toggle_pause:
  assumes "playing s"
  shows "toggle e s =
     Returned (emit StateChanged
       (s\<lparr>track_offset_seconds := track_offset_seconds s + pause_elapsed e s,
           playing := False\<rparr>))"
  using assms by (simp add: toggle_def)

lemma pause_elapsed_tick_cur:
  assumes "playing s" and "track_start_time s = Some st"
    and "music_get_pos e \<noteq> None \<or> st \<noteq> 0"
  shows "track_offset_seconds s + pause_elapsed e s = tick_cur e s"
  using assms by (auto simp: pause_elapsed_def tick_cur_def split: option.split)

lemma toggle_resume:
  assumes "\<not> playing s"
    and "0 \<le> current_index s" and "current_index s < int (length (playlist s))"
  shows "\<exists>s'. toggle e s = Returned s' \<and>
           track_offset_seconds s' = track_offset_seconds s \<and>
           (playing s' \<longrightarrow> track_start_time s' = Some (time_time e))"
proof (cases "music_unpause e")
  case True
  with assms show ?thesis by (simp add: toggle_def)
next
  case False
  from assms have "playlist s \<noteq> []" "current_index s \<noteq> - 1"
    by auto
  with False assms py_getitem_in_range [OF assms(2,3)] show ?thesis
    by (simp add: toggle_def play_internal_def)
qed

lemma tick_cur_frozen: "\<not> playing s \<Longrightarrow> tick_cur e s = track_offset_seconds s"
  by (simp add: tick_cur_def)

lemma tick_cur_lower:
  assumes "playing s \<longrightarrow> track_start_time s = Some st \<and> st \<le> time_time e"
  shows "track_offset_seconds s \<le> tick_cur e s"
  using assms by (cases "playing s") (auto simp: tick_cur_def split: option.split)

lemma tick_cur_later:
  assumes "later_reading eA eB"
  shows "tick_cur eA s \<le> tick_cur eB s"
proof (cases "playing s \<and> track_start_time s \<noteq> None")
  case False
  then show ?thesis
    by (auto simp: tick_cur_def split: bool.split option.split)
next
  case True
  then obtain st where st: "playing s" "track_start_time s = Some st"
    by auto
  from assms show ?thesis
    by (auto simp: later_reading_def telemetry_def tick_cur_def st
        split: option.splits if_splits)
qed

text \<open>
  Claim C1, as stated, fails: after \<^verbatim>\<open>play_index(0)\<close> at wall clock time 100, a tick at
  100.3 that gets no device position reports 0.3 elapsed seconds, and the next tick, at
  100.6 with a device position of 250 ms, reports 0.25: the value went down while
  \<^verbatim>\<open>playing\<close> was true all along and the clock went forward.
\<close>

theorem elapsed_decreases_counterexample:
  "playing after_play \<and>
   tick (env_ok (1003 / 10) (Some (- 1))) after_play =
     Returned (emit (PositionUpdated (3 / 10) 200) after_play) \<and>
   playing (emit (PositionUpdated (3 / 10) 200) after_play) \<and>
   tick (env_ok (1006 / 10) (Some 250)) (emit (PositionUpdated (3 / 10) 200) after_play) =
     Returned (emit (PositionUpdated (25 / 100) 200)
       (emit (PositionUpdated (3 / 10) 200) after_play)) \<and>
   tick_cur (env_ok (1006 / 10) (Some 250))
       (state_of (tick (env_ok (1003 / 10) (Some (- 1))) after_play))
     < tick_cur (env_ok (1003 / 10) (Some (- 1))) after_play"
  by (simp add: after_play_def three_tracks_eq play_index_def play_internal_def tick_def
      tick_cur_def tick_total_def emit_def Let_def)

text \<open>
  Claim C1, amended. Let \<^verbatim>\<open>play_index(i)\<close> start an existing track, and let two calls of
  \<^verbatim>\<open>toggle()\<close> follow. The first call pauses and the second returns. While paused every
  tick reports the offset stored at the pause and changes nothing else; that offset is
  the elapsed value a tick would have computed at the moment of the pause. After the
  second call every tick whose wall clock is not before that call reports at least that
  offset, so the value does not go back to 0. While playing, before the pause and after the resume, a tick that reads the
  same source as an earlier tick (the device position both times, or the wall clock both
  times) with a reading that is not smaller reports a value that is not smaller.
\<close>

theorem pause_resume_elapsed:
  assumes "0 \<le> i" and "i < int (length (playlist s0))"
    and "is_file e0 (playlist s0 ! nat i)" and "device_starts e0"
    and "s1 = play_index e0 i s0"
    and "s2 = state_of (toggle e1 s1)"
    and "s3 = state_of (toggle e2 s2)"
  shows
    "playing s1 \<and> toggle e1 s1 = Returned s2 \<and> \<not> playing s2 \<and>
     toggle e2 s2 = Returned s3 \<and>
     tick_cur e s2 = track_offset_seconds s2 \<and>
     tick e s2 = Returned (emit (PositionUpdated (track_offset_seconds s2) (tick_total e s2)) s2) \<and>
     (music_get_pos e1 \<noteq> None \<or> time_time e0 \<noteq> 0 \<longrightarrow>
        track_offset_seconds s2 = tick_cur e1 s1) \<and>
     (time_time e2 \<le> time_time e \<longrightarrow> track_offset_seconds s2 \<le> tick_cur e s3) \<and>
     (later_reading eA eB \<longrightarrow>
        tick_cur eA s1 \<le> tick_cur eB s1 \<and> tick_cur eA s3 \<le> tick_cur eB s3)"
proof -
  note p = play_index_plays [OF assms(1-4), folded assms(5)]
  have t1: "toggle e1 s1 = Returned (emit StateChanged
       (s1\<lparr>track_offset_seconds := track_offset_seconds s1 + pause_elapsed e1 s1,
            playing := False\<rparr>))"
    using p(1) by (rule toggle_pause)
  then have s2: "s2 = emit StateChanged
       (s1\<lparr>track_offset_seconds := track_offset_seconds s1 + pause_elapsed e1 s1,
            playing := False\<rparr>)"
    by (simp add: assms(6))
  have np: "\<not> playing s2"
    and o2: "track_offset_seconds s2 = track_offset_seconds s1 + pause_elapsed e1 s1"
    and i2: "0 \<le> current_index s2" "current_index s2 < int (length (playlist s2))"
    using p assms(1,2) by (simp_all add: s2)
  from toggle_resume [OF np i2, of e2] obtain s' where
    s': "toggle e2 s2 = Returned s'" "track_offset_seconds s' = track_offset_seconds s2"
      "playing s' \<longrightarrow> track_start_time s' = Some (time_time e2)"
    by blast
  then have s3: "s3 = s'"
    by (simp add: assms(7))
  have frozen: "tick_cur e s2 = track_offset_seconds s2"
    using np by (rule tick_cur_frozen)
  have idle: "tick e s2 =
      Returned (emit (PositionUpdated (track_offset_seconds s2) (tick_total e s2)) s2)"
    using np by (simp add: tick_def Let_def frozen)
  have at_pause: "track_offset_seconds s2 = tick_cur e1 s1"
    if "music_get_pos e1 \<noteq> None \<or> time_time e0 \<noteq> 0"
    using pause_elapsed_tick_cur [OF p(1,2) that] o2 by simp
  have resumed: "track_offset_seconds s2 \<le> tick_cur e s3" if "time_time e2 \<le> time_time e"
  proof -
    have "track_offset_seconds s3 \<le> tick_cur e s3"
      using s'(3) that by (intro tick_cur_lower [where st = "time_time e2"]) (simp add: s3)
    then show ?thesis
      by (simp add: s3 s'(2))
  qed
  show ?thesis
    using p(1) t1 s2 np s'(1) s3 frozen idle at_pause resumed
      tick_cur_later [of eA eB s1] tick_cur_later [of eA eB s3]
    by simp
qed

theorem pause_resume_elapsed_witness:
  "toggle (env_ok 110 (Some 10000)) after_play =
     Returned (emit StateChanged
       (after_play\<lparr>track_offset_seconds := 10, playing := False\<rparr>)) \<and>
   tick_cur (env_ok 150 (Some 10000))
     (state_of (toggle (env_ok 110 (Some 10000)) after_play)) = 10 \<and>
   10 \<le> tick_cur (env_ok 171 None)
     (state_of (toggle (env_ok 170 None)
        (state_of (toggle (env_ok 110 (Some 10000)) after_play)))) \<and>
   tick_cur (env_ok 105 (Some 5000)) after_play
     \<le> tick_cur (env_ok 106 (Some 6000)) after_play"
proof -
  let ?e0 = "env_ok 100 None"
  let ?e1 = "env_ok 110 (Some 10000)"
  let ?e2 = "env_ok 170 None"
  let ?s2 = "state_of (toggle ?e1 after_play)"
  let ?s3 = "state_of (toggle ?e2 ?s2)"
  have v: "0 \<le> (0::int)" "0 < int (length (playlist three_tracks))"
    "is_file ?e0 (playlist three_tracks ! nat 0)" "device_starts ?e0"
    by (simp_all add: three_tracks_eq)
  note th = pause_resume_elapsed [OF v after_play_def refl refl, of ?e1 ?e2]
  have later: "later_reading (env_ok 105 (Some 5000)) (env_ok 106 (Some 6000))"
    by (simp add: later_reading_def telemetry_def)
  have c: "tick_cur ?e1 after_play = 10"
    by (simp add: after_play_def three_tracks_eq play_index_def play_internal_def
        tick_cur_def emit_def Let_def)
  have o2: "track_offset_seconds ?s2 = 10"
    using th [of "env_ok 150 (Some 10000)"] c by simp
  have a: "toggle ?e1 after_play = Returned ?s2"
    using th [of "env_ok 150 (Some 10000)"] by simp
  have b: "tick_cur (env_ok 150 (Some 10000)) ?s2 = 10"
    using th [of "env_ok 150 (Some 10000)"] o2 by simp
  have d: "10 \<le> tick_cur (env_ok 171 None) ?s3"
    using th [of "env_ok 171 None"] o2 by simp
  have m: "tick_cur (env_ok 105 (Some 5000)) after_play
     \<le> tick_cur (env_ok 106 (Some 6000)) after_play"
    using th [of _ "env_ok 105 (Some 5000)" "env_ok 106 (Some 6000)"] later by simp
  have s2: "?s2 = emit StateChanged
       (after_play\<lparr>track_offset_seconds := 10, playing := False\<rparr>)"
    by (simp add: after_play_def three_tracks_eq play_index_def play_internal_def
        toggle_def pause_elapsed_def emit_def Let_def)
  show ?thesis
    using a b d m s2 by simp
qed

end
